theory Spec2Isabelle
  imports Main "HOL-Library.AList"
begin

section \<open>AccountsDB: a persistent map from user identities to identifiers\<close>

text \<open>
  A shallow embedding of \<^verbatim>\<open>accountsdb.py\<close>. The class \<^verbatim>\<open>AccountsDB\<close> keeps a
  dictionary \<^verbatim>\<open>self.db\<close>, loads it from a pickle file when it is constructed, writes
  it back on \<^verbatim>\<open>flush\<close>, and addresses it by a key that \<^verbatim>\<open>_get_key\<close> derives from
  an IRC prefix \<^verbatim>\<open>nick!ident@host\<close>.

  What lies outside the file is a parameter of the model: the account directory
  \<^verbatim>\<open>ircdb.users.getUser\<close>, the path function \<^verbatim>\<open>dirize\<close> of the configuration, the
  file system, and the faults of an I/O step. Calls of the logger write to an external
  sink only and are left out.
\<close>

subsection \<open>Python strings\<close>

text \<open>
  A string is a list of characters, each of one byte. The cased characters of the model
  are the ASCII letters; every other character has no case, as a digit or a punctuation
  mark has none in Python. Letters outside ASCII are not modelled.
\<close>

definition isupper_char :: "char \<Rightarrow> bool" where
  "isupper_char c \<longleftrightarrow> 65 \<le> (of_char c :: nat) \<and> (of_char c :: nat) \<le> 90"

definition islower_char :: "char \<Rightarrow> bool" where
  "islower_char c \<longleftrightarrow> 97 \<le> (of_char c :: nat) \<and> (of_char c :: nat) \<le> 122"

definition lower_char :: "char \<Rightarrow> char" where
  "lower_char c = (if isupper_char c then char_of ((of_char c :: nat) + 32) else c)"

text \<open>\<^verbatim>\<open>str.lower()\<close>: every upper-case character is replaced by its lower-case one.\<close>

definition lower :: "string \<Rightarrow> string" where
  "lower s = map lower_char s"

text \<open>
  \<^verbatim>\<open>str.islower()\<close>: all cased characters are lower-case and there is at least one
  cased character. So \<^verbatim>\<open>"123".islower()\<close> and \<^verbatim>\<open>"".islower()\<close> are False.
\<close>

definition islower :: "string \<Rightarrow> bool" where
  "islower s \<longleftrightarrow> list_ex islower_char s \<and> \<not> list_ex isupper_char s"

text \<open>
  \<^verbatim>\<open>s.split(sep, 1)\<close> for a separator of one character: the list of the text before
  the first separator and the text after it, or the list of \<^verbatim>\<open>s\<close> alone when \<^verbatim>\<open>s\<close>
  has no separator.
\<close>

fun split1 :: "char \<Rightarrow> string \<Rightarrow> string list" where
  "split1 sep [] = [[]]"
| "split1 sep (c # cs) =
     (if c = sep then [[], cs]
      else (case split1 sep cs of
              [] \<Rightarrow> [[c]]
            | x # xs \<Rightarrow> (c # x) # xs))"

subsection \<open>Python values, dictionaries and exceptions\<close>

text \<open>
  A stored value is opaque; \<open>None\<close> stands for Python's \<^verbatim>\<open>None\<close> and \<open>Some v\<close> for
  any other value. A dictionary key is a string, or a hashable value that is not a string
  (an integer), which has no method \<^verbatim>\<open>islower\<close>. A dictionary is the list of its
  items in insertion order. What \<^verbatim>\<open>pickle.load\<close> returns is a dictionary or an object
  that is none (an integer, a list, \<^verbatim>\<open>None\<close>).
\<close>

datatype pykey = KStr string | KInt int

type_synonym 'v pyval = "'v option"

type_synonym 'v pydict = "(pykey \<times> 'v pyval) list"

datatype 'v pyobj = Dict "'v pydict" | NonDict

text \<open>
  The exceptions. \<open>InvalidPrefix\<close> is the \<^verbatim>\<open>ValueError\<close> of the unpacking
  \<^verbatim>\<open>nick, identhost = prefix.split('!', 1)\<close>, \<open>UnsupportedMode\<close> the \<^verbatim>\<open>ValueError\<close>
  raised for an unknown addressing mode, \<open>LookupFailure\<close> an exception of
  \<^verbatim>\<open>getUser\<close> other than \<^verbatim>\<open>KeyError\<close>. \<^verbatim>\<open>SystemExit\<close> and
  \<^verbatim>\<open>KeyboardInterrupt\<close> derive from \<^verbatim>\<open>BaseException\<close> only; all the others are
  subclasses of \<^verbatim>\<open>Exception\<close>.
\<close>

datatype error =
    InvalidPrefix
  | UnsupportedMode string
  | LookupFailure string
  | KeyError
  | AttributeError
  | TypeError
  | FileNotFoundError
  | PermissionError
  | UnpicklingError
  | PicklingError
  | OSError
  | SystemExit
  | KeyboardInterrupt

text \<open>\<^verbatim>\<open>isinstance(e, Exception)\<close>: what a handler \<^verbatim>\<open>except Exception\<close> catches.\<close>

definition is_Exception :: "error \<Rightarrow> bool" where
  "is_Exception e = (case e of SystemExit \<Rightarrow> False | KeyboardInterrupt \<Rightarrow> False | _ \<Rightarrow> True)"

text \<open>\<^verbatim>\<open>d[k] = v\<close>: overwrites the item in place, or appends a new one.\<close>

definition dict_setitem :: "'v pydict \<Rightarrow> pykey \<Rightarrow> 'v pyval \<Rightarrow> 'v pydict" where
  "dict_setitem d k v = AList.update k v d"

text \<open>\<^verbatim>\<open>del d[k]\<close>: raises \<^verbatim>\<open>KeyError\<close> when the key is missing.\<close>

definition dict_delitem :: "'v pydict \<Rightarrow> pykey \<Rightarrow> error + 'v pydict" where
  "dict_delitem d k =
     (if k \<in> set (map fst d) then Inr (AList.delete k d) else Inl KeyError)"

text \<open>\<^verbatim>\<open>d.get(k)\<close>: the value, or \<^verbatim>\<open>None\<close> when the key is missing.\<close>

definition dict_get :: "'v pydict \<Rightarrow> pykey \<Rightarrow> 'v pyval" where
  "dict_get d k = (case map_of d k of None \<Rightarrow> None | Some v \<Rightarrow> v)"

subsection \<open>The environment\<close>

text \<open>
  \<^verbatim>\<open>ircdb.users.getUser(prefix)\<close> returns a user object, of which the code reads the
  name, or raises \<^verbatim>\<open>KeyError\<close> when no account matches, or raises something else.
\<close>

datatype lookup = User string | Raise_KeyError | Raise_other string

text \<open>
  A file is unreadable (opening it raises), holds bytes that are no pickle, holds a
  pickle whose loading runs code that raises the given exception (a pickle may call any
  function, \<^verbatim>\<open>sys.exit\<close> among them), or holds the pickle of an object. A file system
  maps a path to its file.
\<close>

datatype 'v pyfile = Unreadable | Garbage | Raising error | Pickled "'v pyobj"

type_synonym 'v filesystem = "string \<Rightarrow> 'v pyfile option"

text \<open>\<^verbatim>\<open>with open(path, 'rb') as f: pickle.load(f)\<close>\<close>

definition pickle_load :: "'v filesystem \<Rightarrow> string \<Rightarrow> error + 'v pyobj" where
  "pickle_load fs path =
     (case fs path of
        None \<Rightarrow> Inl FileNotFoundError
      | Some Unreadable \<Rightarrow> Inl PermissionError
      | Some Garbage \<Rightarrow> Inl UnpicklingError
      | Some (Raising e) \<Rightarrow> Inl e
      | Some (Pickled obj) \<Rightarrow> Inr obj)"

text \<open>\<^verbatim>\<open>shutil.move(src, dst)\<close> when it succeeds: a rename.\<close>

definition move :: "'v filesystem \<Rightarrow> string \<Rightarrow> string \<Rightarrow> 'v filesystem" where
  "move fs src dst = (fs(dst := fs src))(src := None)"

text \<open>
  The step of \<^verbatim>\<open>flush\<close> that fails, with the exception it raises: opening the
  temporary file, \<^verbatim>\<open>pickle.dump\<close>, or \<^verbatim>\<open>shutil.move\<close>. A failed move leaves the
  target in a state the model does not constrain.
\<close>

datatype 'v fault =
    Open_fails error
  | Dump_fails error
  | Move_fails error "'v pyfile option"

subsection \<open>The class AccountsDB\<close>

definition MODES :: "string list" where
  "MODES = [''accounts'', ''identhost'', ''nicks'']"

definition DEFAULT_MODE :: string where
  "DEFAULT_MODE = hd MODES"

record 'v accountsdb =
  db :: "'v pyobj"
  plugin_name :: string
  filename :: string
  case_sensitive :: bool
  addressing_mode :: string

text \<open>
  The loop of \<^verbatim>\<open>__init__\<close> over \<^verbatim>\<open>self.db.copy().items()\<close>: the first argument is
  what is left of the copy's items, the second is \<^verbatim>\<open>self.db\<close>.
\<close>

fun case_shift :: "'v pydict \<Rightarrow> 'v pydict \<Rightarrow> error + 'v pydict" where
  "case_shift [] d = Inr d"
| "case_shift ((key, val) # items) d =
     (case key of
        KInt n \<Rightarrow> Inl AttributeError
      | KStr k \<Rightarrow>
          if \<not> islower k then
            (case dict_delitem (dict_setitem d (KStr (lower k)) val) key of
               Inl e \<Rightarrow> Inl e
             | Inr d' \<Rightarrow> case_shift items d')
          else case_shift items d)"

text \<open>
  \<^verbatim>\<open>__init__\<close>. The handler is \<^verbatim>\<open>except Exception\<close>: an exception of the
  \<^verbatim>\<open>try\<close> block that is an \<^verbatim>\<open>Exception\<close> is caught and leaves the empty
  dictionary, any other one reaches the caller. The \<^verbatim>\<open>else\<close> block runs outside the
  handler, so what it raises reaches the caller.
\<close>

definition init ::
  "(string \<Rightarrow> string) \<Rightarrow> 'v filesystem \<Rightarrow> string \<Rightarrow> string \<Rightarrow> string \<Rightarrow> bool
     \<Rightarrow> error + 'v accountsdb" where
  "init dirize fs plugin_name' filename' addressing_mode' case_sensitive' =
     (let self = \<lparr>db = Dict [], plugin_name = plugin_name',
                   filename = dirize filename', case_sensitive = case_sensitive',
                   addressing_mode = addressing_mode'\<rparr>
      in case pickle_load fs (filename self) of
           Inl e \<Rightarrow> if is_Exception e then Inr self else Inl e
         | Inr obj \<Rightarrow>
             if \<not> case_sensitive' then
               (case obj of
                  NonDict \<Rightarrow> Inl AttributeError
                | Dict d \<Rightarrow>
                    (case case_shift d d of
                       Inl e \<Rightarrow> Inl e
                     | Inr d' \<Rightarrow> Inr (self\<lparr>db := Dict d'\<rparr>)))
             else Inr (self\<lparr>db := obj\<rparr>))"

text \<open>The \<^verbatim>\<open>try\<close> block of \<^verbatim>\<open>flush\<close>.\<close>

definition flush_try ::
  "'v fault option \<Rightarrow> 'v accountsdb \<Rightarrow> 'v filesystem \<Rightarrow> (error + unit) \<times> 'v filesystem" where
  "flush_try fault self fs =
     (let tmp_filename = filename self @ ''.tmp'' in
      case fault of
        Some (Open_fails e) \<Rightarrow> (Inl e, fs)
      | Some (Dump_fails e) \<Rightarrow> (Inl e, fs(tmp_filename \<mapsto> Garbage))
      | Some (Move_fails e dst) \<Rightarrow>
          (Inl e, (fs(tmp_filename \<mapsto> Pickled (db self)))(filename self := dst))
      | None \<Rightarrow>
          (Inr (), move (fs(tmp_filename \<mapsto> Pickled (db self))) tmp_filename (filename self)))"

text \<open>
  \<^verbatim>\<open>flush\<close>: the handler \<^verbatim>\<open>except Exception\<close> logs and returns; an exception
  that is no \<^verbatim>\<open>Exception\<close> reaches the caller.
\<close>

definition flush ::
  "'v fault option \<Rightarrow> 'v accountsdb \<Rightarrow> 'v filesystem \<Rightarrow> (error + unit) \<times> 'v filesystem" where
  "flush fault self fs =
     (case flush_try fault self fs of
        (Inl e, fs') \<Rightarrow> if is_Exception e then (Inr (), fs') else (Inl e, fs')
      | (Inr u, fs') \<Rightarrow> (Inr (), fs'))"

text \<open>\<^verbatim>\<open>_get_key\<close>\<close>

definition get_key :: "(string \<Rightarrow> lookup) \<Rightarrow> 'v accountsdb \<Rightarrow> string \<Rightarrow> error + string" where
  "get_key getUser self prefix =
     (case split1 CHR ''!'' prefix of
        [nick, identhost] \<Rightarrow>
          if addressing_mode self = ''accounts'' then
            (case getUser prefix of
               User name \<Rightarrow> Inr name
             | Raise_KeyError \<Rightarrow> Inr identhost
             | Raise_other e \<Rightarrow> Inl (LookupFailure e))
          else if addressing_mode self = ''identhost'' then Inr identhost
          else if addressing_mode self = ''nicks'' then Inr nick
          else Inl (UnsupportedMode (addressing_mode self))
      | _ \<Rightarrow> Inl InvalidPrefix)"

text \<open>
  \<^verbatim>\<open>set\<close> and \<^verbatim>\<open>get\<close> return their result and the store after the call. An item
  assignment to an object that is no dictionary raises \<^verbatim>\<open>TypeError\<close>; such an object
  has no method \<^verbatim>\<open>get\<close>.
\<close>

definition set_db ::
  "(string \<Rightarrow> lookup) \<Rightarrow> 'v accountsdb \<Rightarrow> string \<Rightarrow> 'v pyval \<Rightarrow> (error + unit) \<times> 'v accountsdb" where
  "set_db getUser self prefix newId =
     (case get_key getUser self prefix of
        Inl e \<Rightarrow> (Inl e, self)
      | Inr user \<Rightarrow>
          (let user' = (if \<not> case_sensitive self then lower user else user) in
           case db self of
             Dict d \<Rightarrow> (Inr (), self\<lparr>db := Dict (dict_setitem d (KStr user') newId)\<rparr>)
           | NonDict \<Rightarrow> (Inl TypeError, self)))"

definition get ::
  "(string \<Rightarrow> lookup) \<Rightarrow> 'v accountsdb \<Rightarrow> string \<Rightarrow> (error + 'v pyval) \<times> 'v accountsdb" where
  "get getUser self prefix =
     (case get_key getUser self prefix of
        Inl e \<Rightarrow> (Inl e, self)
      | Inr user \<Rightarrow>
          (let user' = (if \<not> case_sensitive self then lower user else user) in
           case db self of
             Dict d \<Rightarrow> (Inr (dict_get d (KStr user')), self)
           | NonDict \<Rightarrow> (Inl AttributeError, self)))"

subsection \<open>Notions used to state the properties\<close>

text \<open>A string with at least one cased character.\<close>

definition cased :: "string \<Rightarrow> bool" where
  "cased s \<longleftrightarrow> list_ex (\<lambda>c. isupper_char c \<or> islower_char c) s"

definition is_str :: "pykey \<Rightarrow> bool" where
  "is_str k = (case k of KStr s \<Rightarrow> True | KInt n \<Rightarrow> False)"

text \<open>
  A loaded object that is a dictionary all of whose keys are strings. The keys of a
  Python dictionary are pairwise different, so the list of items has distinct keys.
\<close>

definition str_keyed :: "'v pyobj \<Rightarrow> bool" where
  "str_keyed obj =
     (case obj of
        Dict d \<Rightarrow> distinct (map fst d) \<and> list_all is_str (map fst d)
      | NonDict \<Rightarrow> False)"

text \<open>Two keys that are different strings and equal once lower-cased.\<close>

definition differ_only_by_case :: "pykey \<Rightarrow> pykey \<Rightarrow> bool" where
  "differ_only_by_case a b =
     (case (a, b) of
        (KStr s, KStr t) \<Rightarrow> s \<noteq> t \<and> lower s = lower t
      | _ \<Rightarrow> False)"

text \<open>The exception that a failing step of \<^verbatim>\<open>flush\<close> raises.\<close>

definition raised :: "'v fault \<Rightarrow> error" where
  "raised f = (case f of Open_fails e \<Rightarrow> e | Dump_fails e \<Rightarrow> e | Move_fails e dst \<Rightarrow> e)"

text \<open>
  The canonical key of a prefix: what \<^verbatim>\<open>set\<close> and \<^verbatim>\<open>get\<close> index the dictionary
  with, the resolved key, lower-cased unless the store is case-sensitive.
\<close>

definition canonical_key ::
  "(string \<Rightarrow> lookup) \<Rightarrow> 'v accountsdb \<Rightarrow> string \<Rightarrow> error + string" where
  "canonical_key getUser self prefix =
     (case get_key getUser self prefix of
        Inl e \<Rightarrow> Inl e
      | Inr user \<Rightarrow> Inr (if \<not> case_sensitive self then lower user else user))"

text \<open>
  A sequence of calls of \<^verbatim>\<open>set\<close>, each with a prefix and a value; a call that
  raises leaves the store as it was, and the caller goes on.
\<close>

definition set_all ::
  "(string \<Rightarrow> lookup) \<Rightarrow> 'v accountsdb \<Rightarrow> (string \<times> 'v pyval) list \<Rightarrow> 'v accountsdb" where
  "set_all getUser self calls = foldl (\<lambda>s (q, w). snd (set_db getUser s q w)) self calls"

section \<open>Properties\<close>

subsection \<open>Strings\<close>

lemma lower_char_not_upper: "\<not> isupper_char (lower_char c)"
  by (auto simp: lower_char_def isupper_char_def)

lemma lower_char_lower: "isupper_char c \<Longrightarrow> islower_char (lower_char c)"
  by (auto simp: lower_char_def isupper_char_def islower_char_def)

lemma islower_char_lower: "islower_char c \<Longrightarrow> islower_char (lower_char c)"
  by (auto simp: lower_char_def isupper_char_def islower_char_def)

lemma no_upper_lower_id: "\<not> list_ex isupper_char s \<Longrightarrow> lower s = s"
  by (induction s) (auto simp: lower_def lower_char_def)

lemma islower_lower_id: "islower s \<Longrightarrow> lower s = s"
  by (simp add: islower_def no_upper_lower_id)

lemma uncased_lower_id: "\<not> cased s \<Longrightarrow> lower s = s"
  by (rule no_upper_lower_id) (auto simp: cased_def list_ex_iff)

lemma cased_islower_lower: "cased s \<Longrightarrow> islower (lower s)"
  unfolding cased_def islower_def lower_def list_ex_iff
  using lower_char_not_upper lower_char_lower islower_char_lower by auto

lemma cased_not_islower_neq: "cased s \<Longrightarrow> \<not> islower s \<Longrightarrow> lower s \<noteq> s"
  using cased_islower_lower by metis

lemma lower_idem: "lower (lower s) = lower s"
  by (rule no_upper_lower_id) (simp add: lower_def list_ex_iff lower_char_not_upper)

lemma split1_no_sep: "sep \<notin> set s \<Longrightarrow> split1 sep s = [s]"
  by (induction s) auto

lemma split1_sep: "sep \<notin> set a \<Longrightarrow> split1 sep (a @ sep # b) = [a, b]"
  by (induction a) auto

lemma split1_cases:
  "(sep \<notin> set s \<and> split1 sep s = [s]) \<or>
   (\<exists>a b. s = a @ sep # b \<and> sep \<notin> set a \<and> split1 sep s = [a, b])"
proof (cases "sep \<in> set s")
  case True
  then obtain a b where "s = a @ sep # b" "sep \<notin> set a"
    by (meson split_list_first)
  then show ?thesis using split1_sep by blast
next
  case False
  then show ?thesis by (simp add: split1_no_sep)
qed

subsection \<open>Resolution\<close>

lemma get_key_no_sep:
  "CHR ''!'' \<notin> set p \<Longrightarrow> get_key getUser self p = Inl InvalidPrefix"
  by (simp add: get_key_def split1_no_sep)

lemma get_key_sep:
  "CHR ''!'' \<notin> set nick \<Longrightarrow>
   get_key getUser self (nick @ CHR ''!'' # identhost) =
     (if addressing_mode self = ''accounts'' then
        (case getUser (nick @ CHR ''!'' # identhost) of
           User name \<Rightarrow> Inr name
         | Raise_KeyError \<Rightarrow> Inr identhost
         | Raise_other e \<Rightarrow> Inl (LookupFailure e))
      else if addressing_mode self = ''identhost'' then Inr identhost
      else if addressing_mode self = ''nicks'' then Inr nick
      else Inl (UnsupportedMode (addressing_mode self)))"
  by (simp add: get_key_def split1_sep)

lemma get_key_total:
  assumes "CHR ''!'' \<in> set p" "addressing_mode self \<in> set MODES"
    "\<forall>e. getUser p \<noteq> Raise_other e"
  shows "\<exists>user. get_key getUser self p = Inr user"
proof -
  from assms(1) obtain a b where p: "p = a @ CHR ''!'' # b" "CHR ''!'' \<notin> set a"
    by (meson split_list_first)
  show ?thesis
    using assms(2,3) unfolding p(1) get_key_sep [OF p(2)]
    by (cases "getUser (a @ CHR ''!'' # b)") (auto simp: MODES_def)
qed

lemma get_key_mode_only:
  "addressing_mode self' = addressing_mode self \<Longrightarrow>
   get_key getUser self' p = get_key getUser self p"
  by (auto simp: get_key_def split: list.splits)

lemma canonical_key_mode_only:
  "addressing_mode self' = addressing_mode self \<Longrightarrow>
   case_sensitive self' = case_sensitive self \<Longrightarrow>
   canonical_key getUser self' p = canonical_key getUser self p"
  using get_key_mode_only [of self' self getUser p]
  by (auto simp: canonical_key_def split: sum.splits)

subsection \<open>set and get\<close>

lemma set_db_canonical:
  "set_db getUser self p v =
     (case canonical_key getUser self p of
        Inl e \<Rightarrow> (Inl e, self)
      | Inr k \<Rightarrow>
          (case db self of
             Dict d \<Rightarrow> (Inr (), self\<lparr>db := Dict (dict_setitem d (KStr k) v)\<rparr>)
           | NonDict \<Rightarrow> (Inl TypeError, self)))"
  by (simp add: set_db_def canonical_key_def split: sum.splits)

lemma get_canonical:
  "get getUser self p =
     (case canonical_key getUser self p of
        Inl e \<Rightarrow> (Inl e, self)
      | Inr k \<Rightarrow>
          (case db self of
             Dict d \<Rightarrow> (Inr (dict_get d (KStr k)), self)
           | NonDict \<Rightarrow> (Inl AttributeError, self)))"
  by (simp add: get_def canonical_key_def split: sum.splits)

lemma dict_get_setitem_same: "dict_get (dict_setitem d k v) k = v"
  by (simp add: dict_get_def dict_setitem_def update_conv')

lemma dict_get_setitem_other: "k' \<noteq> k \<Longrightarrow> dict_get (dict_setitem d k v) k' = dict_get d k'"
  by (simp add: dict_get_def dict_setitem_def update_conv')

lemma dict_get_absent: "k \<notin> fst ` set d \<Longrightarrow> dict_get d k = None"
  using map_of_eq_None_iff [of d k] by (simp add: dict_get_def)

lemma keys_setitem: "fst ` set (dict_setitem d k v) = insert k (fst ` set d)"
  by (simp add: dict_setitem_def dom_update)

lemma set_db_fields:
  "addressing_mode (snd (set_db getUser self q w)) = addressing_mode self \<and>
   case_sensitive (snd (set_db getUser self q w)) = case_sensitive self"
  by (simp add: set_db_canonical split: sum.splits pyobj.splits)

text \<open>A call of set on another canonical key, or one that raises, keeps the entry.\<close>

lemma set_db_frame:
  assumes "db self = Dict d" "canonical_key getUser self q \<noteq> Inr k"
  shows "\<exists>d'. db (snd (set_db getUser self q w)) = Dict d' \<and>
           dict_get d' (KStr k) = dict_get d (KStr k) \<and>
           (KStr k \<in> fst ` set d' \<longleftrightarrow> KStr k \<in> fst ` set d)"
  using assms
  by (cases "canonical_key getUser self q")
     (auto simp: set_db_canonical dict_get_setitem_other keys_setitem)

lemma set_all_frame:
  assumes "db self = Dict d"
    "\<forall>(q, w) \<in> set calls. canonical_key getUser self q \<noteq> Inr k"
  shows "\<exists>d'. db (set_all getUser self calls) = Dict d' \<and>
           dict_get d' (KStr k) = dict_get d (KStr k) \<and>
           (KStr k \<in> fst ` set d' \<longleftrightarrow> KStr k \<in> fst ` set d) \<and>
           addressing_mode (set_all getUser self calls) = addressing_mode self \<and>
           case_sensitive (set_all getUser self calls) = case_sensitive self"
  using assms
proof (induction calls arbitrary: self d)
  case Nil
  then show ?case by (simp add: set_all_def)
next
  case (Cons c calls)
  obtain q w where c: "c = (q, w)" by (cases c)
  let ?s = "snd (set_db getUser self q w)"
  from Cons.prems c have ne: "canonical_key getUser self q \<noteq> Inr k" by simp
  from set_db_frame [OF Cons.prems(1) ne, of w]
  obtain d1 where d1: "db ?s = Dict d1" "dict_get d1 (KStr k) = dict_get d (KStr k)"
    "KStr k \<in> fst ` set d1 \<longleftrightarrow> KStr k \<in> fst ` set d" by blast
  have fields: "addressing_mode ?s = addressing_mode self" "case_sensitive ?s = case_sensitive self"
    using set_db_fields [of getUser self q w] by simp_all
  have "\<forall>(q', w') \<in> set calls. canonical_key getUser ?s q' \<noteq> Inr k"
    using Cons.prems(2) canonical_key_mode_only [OF fields] by auto
  from Cons.IH [OF d1(1) this]
  obtain d' where "db (set_all getUser ?s calls) = Dict d'"
    "dict_get d' (KStr k) = dict_get d1 (KStr k)"
    "KStr k \<in> fst ` set d' \<longleftrightarrow> KStr k \<in> fst ` set d1"
    "addressing_mode (set_all getUser ?s calls) = addressing_mode ?s"
    "case_sensitive (set_all getUser ?s calls) = case_sensitive ?s"
    by blast
  moreover have "set_all getUser self (c # calls) = set_all getUser ?s calls"
    by (simp add: set_all_def c)
  ultimately show ?case using d1 fields by simp
qed

text \<open>
  Claim C2. Let \<open>p\<close> be a prefix with the separator \<^verbatim>\<open>!\<close>, under one of the three
  addressing modes and an account lookup for \<open>p\<close> that does not fail otherwise than
  by \<^verbatim>\<open>KeyError\<close>, on a store whose \<^verbatim>\<open>db\<close> is a dictionary. Then \<^verbatim>\<open>set(p, v)\<close>
  returns, and \<^verbatim>\<open>get(p)\<close> returns \<open>v\<close>, at once and after any sequence of calls
  of \<^verbatim>\<open>set\<close> none of which resolves to the canonical key of \<open>p\<close>.
\<close>

theorem set_get_roundtrip:
  assumes "CHR ''!'' \<in> set p" "addressing_mode self \<in> set MODES"
    "\<forall>e. getUser p \<noteq> Raise_other e" "db self = Dict d"
    "\<forall>(q, w) \<in> set calls. canonical_key getUser self q \<noteq> canonical_key getUser self p"
  shows "\<exists>self'. set_db getUser self p v = (Inr (), self') \<and>
           get getUser self' p = (Inr v, self') \<and>
           get getUser (set_all getUser self' calls) p = (Inr v, set_all getUser self' calls)"
proof -
  from get_key_total [of p self getUser] assms(1-3)
  obtain k where k: "canonical_key getUser self p = Inr k"
    by (auto simp: canonical_key_def)
  define self' where "self' = self\<lparr>db := Dict (dict_setitem d (KStr k) v)\<rparr>"
  have set: "set_db getUser self p v = (Inr (), self')"
    by (simp add: set_db_canonical k assms(4) self'_def)
  have ck: "canonical_key getUser s p = Inr k"
    if "addressing_mode s = addressing_mode self" "case_sensitive s = case_sensitive self" for s
    using canonical_key_mode_only [OF that] k by simp
  have ck': "canonical_key getUser self' p = Inr k"
    by (rule ck) (simp_all add: self'_def)
  have get1: "get getUser self' p = (Inr v, self')"
    by (simp add: get_canonical ck') (simp add: self'_def dict_get_setitem_same)
  have "\<forall>(q, w) \<in> set calls. canonical_key getUser self' q \<noteq> Inr k"
    using assms(5) k canonical_key_mode_only [of self' self getUser] by (auto simp: self'_def)
  from set_all_frame [OF _ this, of "dict_setitem d (KStr k) v"]
  obtain d' where d': "db (set_all getUser self' calls) = Dict d'"
    "dict_get d' (KStr k) = v"
    "addressing_mode (set_all getUser self' calls) = addressing_mode self'"
    "case_sensitive (set_all getUser self' calls) = case_sensitive self'"
    by (auto simp: self'_def dict_get_setitem_same)
  have "canonical_key getUser (set_all getUser self' calls) p = Inr k"
    by (rule ck) (simp_all add: d'(3,4), simp_all add: self'_def)
  then have "get getUser (set_all getUser self' calls) p = (Inr v, set_all getUser self' calls)"
    by (simp add: get_canonical d'(1,2))
  with set get1 show ?thesis by blast
qed

theorem set_get_roundtrip_witness:
  "\<exists>self'.
     set_db (\<lambda>p. Raise_KeyError)
       \<lparr>db = Dict [], plugin_name = ''P'', filename = ''a.db'',
        case_sensitive = False, addressing_mode = ''accounts''\<rparr> ''Nick!User@Host'' (Some (7::nat))
       = (Inr (), self') \<and>
     get (\<lambda>p. Raise_KeyError) self' ''Nick!User@Host'' = (Inr (Some 7), self') \<and>
     get (\<lambda>p. Raise_KeyError)
       (set_all (\<lambda>p. Raise_KeyError) self' [(''other!x@y'', Some 8), (''bad'', Some 9)])
       ''Nick!User@Host''
       = (Inr (Some 7),
          set_all (\<lambda>p. Raise_KeyError) self' [(''other!x@y'', Some 8), (''bad'', Some 9)])"
proof -
  let ?g = "\<lambda>p::string. Raise_KeyError"
  let ?s = "\<lparr>db = Dict ([] :: nat pydict), plugin_name = ''P'', filename = ''a.db'',
        case_sensitive = False, addressing_mode = ''accounts''\<rparr>"
  have a: "CHR ''!'' \<in> set ''Nick!User@Host''" "addressing_mode ?s \<in> set MODES"
    "\<forall>e. ?g ''Nick!User@Host'' \<noteq> Raise_other e" "db ?s = Dict []"
    by (simp_all add: MODES_def)
  have k: "canonical_key ?g ?s ''Nick!User@Host'' = Inr ''user@host''"
    "canonical_key ?g ?s ''other!x@y'' = Inr ''x@y''"
    "canonical_key ?g ?s ''bad'' = Inl InvalidPrefix"
    by code_simp+
  have c: "\<forall>(q, w) \<in> set [(''other!x@y'', Some (8::nat)), (''bad'', Some 9)].
      canonical_key ?g ?s q \<noteq> canonical_key ?g ?s ''Nick!User@Host''"
    by (simp add: k)
  show ?thesis
    by (rule set_get_roundtrip [OF a c])
qed

text \<open>
  Claim C10. When the prefix \<open>p\<close> resolves to the canonical key \<open>k\<close>, the loaded
  dictionary has no entry for \<open>k\<close>, and no call of \<^verbatim>\<open>set\<close> since has resolved to
  \<open>k\<close>, then \<^verbatim>\<open>get(p)\<close> returns \<^verbatim>\<open>None\<close>, raises nothing, and leaves the store as
  it was.
\<close>

theorem get_missing_key_absent:
  assumes "canonical_key getUser self p = Inr k" "db self = Dict d" "KStr k \<notin> fst ` set d"
    "\<forall>(q, w) \<in> set calls. canonical_key getUser self q \<noteq> Inr k"
  shows "get getUser (set_all getUser self calls) p = (Inr None, set_all getUser self calls)"
proof -
  from set_all_frame [OF assms(2,4)]
  obtain d' where d': "db (set_all getUser self calls) = Dict d'"
    "KStr k \<notin> fst ` set d'"
    "addressing_mode (set_all getUser self calls) = addressing_mode self"
    "case_sensitive (set_all getUser self calls) = case_sensitive self"
    using assms(3) by blast
  have "canonical_key getUser (set_all getUser self calls) p = Inr k"
    using canonical_key_mode_only [OF d'(3,4)] assms(1) by simp
  then show ?thesis
    by (simp add: get_canonical d'(1) dict_get_absent [OF d'(2)])
qed

theorem get_missing_key_absent_witness:
  "get (\<lambda>p. Raise_KeyError)
     (set_all (\<lambda>p. Raise_KeyError)
        \<lparr>db = Dict [(KStr ''bob'', Some (5::nat))], plugin_name = ''P'', filename = ''a.db'',
         case_sensitive = False, addressing_mode = ''nicks''\<rparr>
        [(''other!x@y'', Some 8)])
     ''Nick!user@host''
   = (Inr None,
      set_all (\<lambda>p. Raise_KeyError)
        \<lparr>db = Dict [(KStr ''bob'', Some (5::nat))], plugin_name = ''P'', filename = ''a.db'',
         case_sensitive = False, addressing_mode = ''nicks''\<rparr>
        [(''other!x@y'', Some 8)])"
proof -
  let ?g = "\<lambda>p::string. Raise_KeyError"
  let ?s = "\<lparr>db = Dict [(KStr ''bob'', Some (5::nat))], plugin_name = ''P'', filename = ''a.db'',
         case_sensitive = False, addressing_mode = ''nicks''\<rparr>"
  have k: "canonical_key ?g ?s ''Nick!user@host'' = Inr ''nick''"
    "canonical_key ?g ?s ''other!x@y'' = Inr ''other''"
    by code_simp+
  have d: "db ?s = Dict [(KStr ''bob'', Some 5)]" by simp
  have n: "KStr ''nick'' \<notin> fst ` set [(KStr ''bob'', Some (5::nat))]" by simp
  have c: "\<forall>(q, w) \<in> set [(''other!x@y'', Some (8::nat))]. canonical_key ?g ?s q \<noteq> Inr ''nick''"
    by (simp add: k)
  show ?thesis
    by (rule get_missing_key_absent [OF k(1) d n c])
qed

text \<open>
  Claim C5. For a prefix without the separator \<^verbatim>\<open>!\<close>, the resolution raises the
  \<^verbatim>\<open>ValueError\<close> of the unpacking (the specification's InvalidPrefix), and so do
  \<^verbatim>\<open>get\<close> and \<^verbatim>\<open>set\<close>, which leave the store, and with it the mapping, as it was.
\<close>

theorem no_separator_invalid_prefix:
  assumes "CHR ''!'' \<notin> set p"
  shows "get_key getUser self p = Inl InvalidPrefix \<and>
         get getUser self p = (Inl InvalidPrefix, self) \<and>
         set_db getUser self p v = (Inl InvalidPrefix, self)"
  using assms by (simp add: get_def set_db_def get_key_no_sep)

theorem no_separator_invalid_prefix_witness:
  "CHR ''!'' \<notin> set ''nick'' \<and>
   get_key (\<lambda>p. Raise_KeyError)
     \<lparr>db = Dict [(KStr ''bob'', Some (1::nat))], plugin_name = ''P'', filename = ''a.db'',
      case_sensitive = False, addressing_mode = ''accounts''\<rparr> ''nick'' = Inl InvalidPrefix \<and>
   get (\<lambda>p. Raise_KeyError)
     \<lparr>db = Dict [(KStr ''bob'', Some (1::nat))], plugin_name = ''P'', filename = ''a.db'',
      case_sensitive = False, addressing_mode = ''accounts''\<rparr> ''nick''
     = (Inl InvalidPrefix,
        \<lparr>db = Dict [(KStr ''bob'', Some (1::nat))], plugin_name = ''P'', filename = ''a.db'',
         case_sensitive = False, addressing_mode = ''accounts''\<rparr>) \<and>
   set_db (\<lambda>p. Raise_KeyError)
     \<lparr>db = Dict [(KStr ''bob'', Some (1::nat))], plugin_name = ''P'', filename = ''a.db'',
      case_sensitive = False, addressing_mode = ''accounts''\<rparr> ''nick'' (Some 2)
     = (Inl InvalidPrefix,
        \<lparr>db = Dict [(KStr ''bob'', Some (1::nat))], plugin_name = ''P'', filename = ''a.db'',
         case_sensitive = False, addressing_mode = ''accounts''\<rparr>)"
proof -
  have h: "CHR ''!'' \<notin> set ''nick''" by simp
  show ?thesis
    using h no_separator_invalid_prefix [OF h] by blast
qed

text \<open>
  Claim C6. In the mode \<^verbatim>\<open>accounts\<close>, for a prefix \<^verbatim>\<open>nick!identhost\<close>: when the
  lookup finds an account the resolution returns its name; when the lookup raises
  \<^verbatim>\<open>KeyError\<close> the resolution returns the part after the first \<^verbatim>\<open>!\<close>; any other
  exception of the lookup reaches the caller unchanged.
\<close>

theorem accounts_mode_resolution:
  assumes "addressing_mode self = ''accounts''" "CHR ''!'' \<notin> set nick"
    "p = nick @ CHR ''!'' # identhost"
  shows "(getUser p = User name \<longrightarrow> get_key getUser self p = Inr name) \<and>
         (getUser p = Raise_KeyError \<longrightarrow> get_key getUser self p = Inr identhost) \<and>
         (getUser p = Raise_other e \<longrightarrow> get_key getUser self p = Inl (LookupFailure e))"
  using assms by (simp add: get_key_sep)

theorem accounts_mode_resolution_witness:
  "get_key (\<lambda>p. if p = ''nick!user@host'' then User ''Alice'' else Raise_KeyError)
     \<lparr>db = Dict ([] :: nat pydict), plugin_name = ''P'', filename = ''a.db'',
      case_sensitive = False, addressing_mode = ''accounts''\<rparr> ''nick!user@host'' = Inr ''Alice'' \<and>
   get_key (\<lambda>p. Raise_KeyError)
     \<lparr>db = Dict ([] :: nat pydict), plugin_name = ''P'', filename = ''a.db'',
      case_sensitive = False, addressing_mode = ''accounts''\<rparr> ''nick!user@host'' = Inr ''user@host'' \<and>
   get_key (\<lambda>p. Raise_other ''down'')
     \<lparr>db = Dict ([] :: nat pydict), plugin_name = ''P'', filename = ''a.db'',
      case_sensitive = False, addressing_mode = ''accounts''\<rparr> ''nick!user@host''
     = Inl (LookupFailure ''down'')"
proof -
  let ?s = "\<lparr>db = Dict ([] :: nat pydict), plugin_name = ''P'', filename = ''a.db'',
      case_sensitive = False, addressing_mode = ''accounts''\<rparr>"
  have m: "addressing_mode ?s = ''accounts''" by simp
  have n: "CHR ''!'' \<notin> set ''nick''" by simp
  have p: "''nick!user@host'' = ''nick'' @ CHR ''!'' # ''user@host''" by simp
  show ?thesis
    using accounts_mode_resolution [OF m n p, of "\<lambda>p. if p = ''nick!user@host'' then User ''Alice'' else Raise_KeyError" "''Alice''"]
      accounts_mode_resolution [OF m n p, of "\<lambda>p. Raise_KeyError"]
      accounts_mode_resolution [OF m n p, of "\<lambda>p. Raise_other ''down''" _ "''down''"]
    by simp
qed

text \<open>
  Claim C9. For a prefix \<^verbatim>\<open>nick!identhost\<close>, the mode \<^verbatim>\<open>identhost\<close> returns the part
  after the first \<^verbatim>\<open>!\<close> whatever the account lookup is or would do (the result is the
  same for any two lookup functions, also one that raises), and the mode \<^verbatim>\<open>nicks\<close>
  returns the part before the first \<^verbatim>\<open>!\<close>.
\<close>

theorem identhost_and_nicks_resolution:
  assumes "CHR ''!'' \<notin> set nick" "p = nick @ CHR ''!'' # identhost"
  shows "(addressing_mode self = ''identhost'' \<longrightarrow>
            get_key getUser self p = Inr identhost \<and>
            get_key getUser' self p = get_key getUser self p) \<and>
         (addressing_mode self = ''nicks'' \<longrightarrow> get_key getUser self p = Inr nick)"
  using assms by (simp add: get_key_sep)

theorem identhost_and_nicks_resolution_witness:
  "get_key (\<lambda>p. Raise_other ''down'')
     \<lparr>db = Dict ([] :: nat pydict), plugin_name = ''P'', filename = ''a.db'',
      case_sensitive = False, addressing_mode = ''identhost''\<rparr> ''nick!user@host'' = Inr ''user@host'' \<and>
   get_key (\<lambda>p. Raise_other ''down'')
     \<lparr>db = Dict ([] :: nat pydict), plugin_name = ''P'', filename = ''a.db'',
      case_sensitive = False, addressing_mode = ''nicks''\<rparr> ''nick!user@host'' = Inr ''nick''"
proof -
  have n: "CHR ''!'' \<notin> set ''nick''" by simp
  have p: "''nick!user@host'' = ''nick'' @ CHR ''!'' # ''user@host''" by simp
  show ?thesis
    using identhost_and_nicks_resolution [OF n p, of
        "\<lparr>db = Dict ([] :: nat pydict), plugin_name = ''P'', filename = ''a.db'',
          case_sensitive = False, addressing_mode = ''identhost''\<rparr>" "\<lambda>p. Raise_other ''down''"]
      identhost_and_nicks_resolution [OF n p, of
        "\<lparr>db = Dict ([] :: nat pydict), plugin_name = ''P'', filename = ''a.db'',
          case_sensitive = False, addressing_mode = ''nicks''\<rparr>" "\<lambda>p. Raise_other ''down''"]
    by simp
qed

text \<open>
  Claim C8. On a store that is not case-sensitive, in the mode \<^verbatim>\<open>nicks\<close>, let \<open>p\<close>
  and \<open>q\<close> be prefixes whose nicknames are equal once lower-cased (as
  \<^verbatim>\<open>Nick!user@host\<close> and \<^verbatim>\<open>nick!user@host\<close> are). After \<^verbatim>\<open>set(p, v)\<close>, both
  \<^verbatim>\<open>get(p)\<close> and \<^verbatim>\<open>get(q)\<close> return \<open>v\<close>.
\<close>

theorem nicks_case_insensitive:
  assumes "\<not> case_sensitive self" "addressing_mode self = ''nicks''" "db self = Dict d"
    "CHR ''!'' \<notin> set n1" "CHR ''!'' \<notin> set n2" "lower n1 = lower n2"
    "p = n1 @ CHR ''!'' # r1" "q = n2 @ CHR ''!'' # r2"
  shows "\<exists>self'. set_db getUser self p v = (Inr (), self') \<and>
           get getUser self' p = (Inr v, self') \<and>
           get getUser self' q = (Inr v, self')"
proof -
  define self' where "self' = self\<lparr>db := Dict (dict_setitem d (KStr (lower n1)) v)\<rparr>"
  have "set_db getUser self p v = (Inr (), self')"
    using assms by (simp add: set_db_def get_key_sep self'_def)
  moreover have "get getUser self' p = (Inr v, self')"
    using assms by (simp add: get_def get_key_sep self'_def dict_get_setitem_same)
  moreover have "get getUser self' q = (Inr v, self')"
    using assms by (simp add: get_def get_key_sep self'_def dict_get_setitem_same)
  ultimately show ?thesis by blast
qed

theorem nicks_case_insensitive_witness:
  "\<exists>self'.
     set_db (\<lambda>p. Raise_KeyError)
       \<lparr>db = Dict [], plugin_name = ''P'', filename = ''a.db'',
        case_sensitive = False, addressing_mode = ''nicks''\<rparr> ''Nick!user@host'' (Some (7::nat))
       = (Inr (), self') \<and>
     get (\<lambda>p. Raise_KeyError) self' ''Nick!user@host'' = (Inr (Some 7), self') \<and>
     get (\<lambda>p. Raise_KeyError) self' ''nick!user@host'' = (Inr (Some 7), self')"
proof -
  let ?s = "\<lparr>db = Dict ([] :: nat pydict), plugin_name = ''P'', filename = ''a.db'',
        case_sensitive = False, addressing_mode = ''nicks''\<rparr>"
  have a: "\<not> case_sensitive ?s" "addressing_mode ?s = ''nicks''" "db ?s = Dict []" by simp_all
  have n: "CHR ''!'' \<notin> set ''Nick''" "CHR ''!'' \<notin> set ''nick''" by simp_all
  have l: "lower ''Nick'' = lower ''nick''" by code_simp
  have p: "''Nick!user@host'' = ''Nick'' @ CHR ''!'' # ''user@host''"
    "''nick!user@host'' = ''nick'' @ CHR ''!'' # ''user@host''" by simp_all
  show ?thesis
    by (rule nicks_case_insensitive [OF a n l p])
qed

text \<open>
  Claim C7, as amended. \<^verbatim>\<open>flush\<close> returns normally whichever step fails, when the
  exception raised is an \<^verbatim>\<open>Exception\<close> (as every write or rename failure is); an
  exception that is none reaches the caller. Whatever the exception, when opening the
  temporary file or the serialization fails, the file at the store's path, or its
  absence, is as before. When nothing fails, the path holds the pickle of \<^verbatim>\<open>db\<close> and
  the temporary file is gone: the target is replaced by a move of the temporary file.
\<close>

theorem flush_swallows_exceptions:
  "((\<forall>f. fault = Some f \<longrightarrow> is_Exception (raised f)) \<longrightarrow>
      fst (flush fault self fs) = Inr ()) \<and>
   (\<forall>f. fault = Some f \<and> \<not> is_Exception (raised f) \<longrightarrow>
      fst (flush fault self fs) = Inl (raised f)) \<and>
   ((\<exists>e. fault = Some (Open_fails e) \<or> fault = Some (Dump_fails e)) \<longrightarrow>
      snd (flush fault self fs) (filename self) = fs (filename self)) \<and>
   (fault = None \<longrightarrow>
      snd (flush fault self fs) (filename self) = Some (Pickled (db self)) \<and>
      snd (flush fault self fs) (filename self @ ''.tmp'') = None)"
  by (auto simp: flush_def flush_try_def move_def raised_def Let_def
           split: option.splits fault.splits)

theorem flush_swallows_exceptions_witness:
  "is_Exception (raised (Dump_fails PicklingError :: nat fault)) \<and>
   fst (flush (Some (Dump_fails PicklingError))
     \<lparr>db = Dict [(KStr ''bob'', Some (5::nat))], plugin_name = ''P'', filename = ''a.db'',
      case_sensitive = False, addressing_mode = ''accounts''\<rparr>
     (Map.empty(''a.db'' \<mapsto> Pickled (Dict [])))) = Inr () \<and>
   snd (flush (Some (Dump_fails PicklingError))
     \<lparr>db = Dict [(KStr ''bob'', Some (5::nat))], plugin_name = ''P'', filename = ''a.db'',
      case_sensitive = False, addressing_mode = ''accounts''\<rparr>
     (Map.empty(''a.db'' \<mapsto> Pickled (Dict [])))) ''a.db'' = Some (Pickled (Dict [])) \<and>
   snd (flush None
     \<lparr>db = Dict [(KStr ''bob'', Some (5::nat))], plugin_name = ''P'', filename = ''a.db'',
      case_sensitive = False, addressing_mode = ''accounts''\<rparr>
     (Map.empty(''a.db'' \<mapsto> Pickled (Dict [])))) ''a.db''
     = Some (Pickled (Dict [(KStr ''bob'', Some 5)]))"
proof -
  let ?s = "\<lparr>db = Dict [(KStr ''bob'', Some (5::nat))], plugin_name = ''P'', filename = ''a.db'',
      case_sensitive = False, addressing_mode = ''accounts''\<rparr>"
  let ?fs = "Map.empty(''a.db'' \<mapsto> Pickled (Dict ([] :: nat pydict)))"
  have e: "is_Exception (raised (Dump_fails PicklingError :: nat fault))"
    by (simp add: is_Exception_def raised_def)
  show ?thesis
    using e flush_swallows_exceptions [of "Some (Dump_fails PicklingError)" ?s ?fs]
      flush_swallows_exceptions [of None ?s ?fs]
    by simp
qed

text \<open>
  Claim C7 as stated fails: when \<^verbatim>\<open>pickle.dump\<close> raises \<^verbatim>\<open>SystemExit\<close> (the
  \<^verbatim>\<open>__reduce__\<close> of a stored value may), the handler \<^verbatim>\<open>except Exception\<close> does
  not catch it and \<^verbatim>\<open>flush\<close> raises.
\<close>

theorem flush_raises_counterexample:
  "fst (flush (Some (Dump_fails SystemExit))
     \<lparr>db = Dict [(KStr ''bob'', Some (5::nat))], plugin_name = ''P'', filename = ''a.db'',
      case_sensitive = False, addressing_mode = ''accounts''\<rparr>
     (Map.empty(''a.db'' \<mapsto> Pickled (Dict [])))) = Inl SystemExit"
  by (simp add: flush_def flush_try_def is_Exception_def)

subsection \<open>Construction and the normalization of the loaded keys\<close>

lemma dict_delitem_present:
  "k \<in> fst ` set d \<Longrightarrow> dict_delitem d k = Inr (AList.delete k d)"
  by (simp add: dict_delitem_def)

lemma keys_delete: "fst ` set (AList.delete k d) = fst ` set d - {k}"
  by (induction d) auto

text \<open>
  The loop over the items of a dictionary with distinct string keys, all of them still
  in \<^verbatim>\<open>self.db\<close>, raises nothing. It removes every key that \<^verbatim>\<open>islower\<close> rejects and
  adds the lower-cased form of those among them that have a cased character.
\<close>

lemma case_shift_keys:
  assumes "distinct (map fst items)" "fst ` set items \<subseteq> fst ` set d"
    "list_all is_str (map fst items)" "distinct (map fst d)"
  shows "\<exists>d'. case_shift items d = Inr d' \<and> distinct (map fst d') \<and>
     fst ` set d' =
       (fst ` set d - {KStr s |s. KStr s \<in> fst ` set items \<and> \<not> islower s})
       \<union> {KStr (lower s) |s. KStr s \<in> fst ` set items \<and> \<not> islower s \<and> cased s}"
  using assms
proof (induction items arbitrary: d)
  case Nil
  then show ?case by simp
next
  case (Cons item items)
  obtain key val where item: "item = (key, val)" by (cases item)
  from Cons.prems(3) item obtain k where key: "key = KStr k"
    by (cases key) (auto simp: is_str_def)
  have rest: "distinct (map fst items)" "list_all is_str (map fst items)"
    "key \<notin> fst ` set items" "fst ` set items \<subseteq> fst ` set d" "key \<in> fst ` set d"
    using Cons.prems item by auto
  show ?case
  proof (cases "islower k")
    case True
    from Cons.IH [OF rest(1) rest(4) rest(2) Cons.prems(4)]
    obtain d' where d': "case_shift items d = Inr d'" "distinct (map fst d')"
      "fst ` set d' =
       (fst ` set d - {KStr s |s. KStr s \<in> fst ` set items \<and> \<not> islower s})
       \<union> {KStr (lower s) |s. KStr s \<in> fst ` set items \<and> \<not> islower s \<and> cased s}"
      by blast
    have "case_shift (item # items) d = Inr d'"
      using True d'(1) by (simp add: item key)
    moreover have "{KStr s |s. KStr s \<in> fst ` set (item # items) \<and> \<not> islower s}
        = {KStr s |s. KStr s \<in> fst ` set items \<and> \<not> islower s}"
      using True by (auto simp: item key)
    moreover have "{KStr (lower s) |s. KStr s \<in> fst ` set (item # items) \<and> \<not> islower s \<and> cased s}
        = {KStr (lower s) |s. KStr s \<in> fst ` set items \<and> \<not> islower s \<and> cased s}"
      using True by (auto simp: item key)
    ultimately show ?thesis using d'(2,3) by simp
  next
    case False
    define d1 where "d1 = dict_setitem d (KStr (lower k)) val"
    define d2 where "d2 = AList.delete key d1"
    have k1: "fst ` set d1 = insert (KStr (lower k)) (fst ` set d)"
      by (simp add: d1_def dict_setitem_def dom_update)
    have dis1: "distinct (map fst d1)"
      by (simp add: d1_def dict_setitem_def distinct_update Cons.prems(4))
    have del: "dict_delitem d1 key = Inr d2"
      unfolding d2_def using rest(5) k1 by (intro dict_delitem_present) simp
    have k2: "fst ` set d2 = insert (KStr (lower k)) (fst ` set d) - {key}"
      by (simp add: d2_def keys_delete k1)
    have dis2: "distinct (map fst d2)"
      by (simp add: d2_def distinct_delete dis1)
    have sub2: "fst ` set items \<subseteq> fst ` set d2"
      using rest(3,4) k2 by auto
    from Cons.IH [OF rest(1) sub2 rest(2) dis2]
    obtain d' where d': "case_shift items d2 = Inr d'" "distinct (map fst d')"
      "fst ` set d' =
       (fst ` set d2 - {KStr s |s. KStr s \<in> fst ` set items \<and> \<not> islower s})
       \<union> {KStr (lower s) |s. KStr s \<in> fst ` set items \<and> \<not> islower s \<and> cased s}"
      by blast
    have run: "case_shift (item # items) d = Inr d'"
      using False d'(1) del by (simp add: item key d1_def)
    have R: "{KStr s |s. KStr s \<in> fst ` set (item # items) \<and> \<not> islower s}
        = insert key {KStr s |s. KStr s \<in> fst ` set items \<and> \<not> islower s}"
      using False by (auto simp: item key)
    have keys: "fst ` set d' =
       (fst ` set d - {KStr s |s. KStr s \<in> fst ` set (item # items) \<and> \<not> islower s})
       \<union> {KStr (lower s) |s. KStr s \<in> fst ` set (item # items) \<and> \<not> islower s \<and> cased s}"
    proof (cases "cased k")
      case True
      have neq: "KStr (lower k) \<noteq> key"
        using cased_not_islower_neq [OF True False] by (simp add: key)
      have low: "islower (lower k)" by (rule cased_islower_lower [OF True])
      have A: "{KStr (lower s) |s. KStr s \<in> fst ` set (item # items) \<and> \<not> islower s \<and> cased s}
        = insert (KStr (lower k)) {KStr (lower s) |s. KStr s \<in> fst ` set items \<and> \<not> islower s \<and> cased s}"
        using False True by (auto simp: item key)
      show ?thesis
        unfolding d'(3) k2 R A using neq low by auto
    next
      case nc: False
      have same: "KStr (lower k) = key"
        using uncased_lower_id [OF nc] by (simp add: key)
      have A: "{KStr (lower s) |s. KStr s \<in> fst ` set (item # items) \<and> \<not> islower s \<and> cased s}
        = {KStr (lower s) |s. KStr s \<in> fst ` set items \<and> \<not> islower s \<and> cased s}"
        using nc by (auto simp: item key)
      show ?thesis
        unfolding d'(3) k2 R A same by auto
    qed
    show ?thesis using run d'(2) keys by blast
  qed
qed

lemma islower_cased: "islower s \<Longrightarrow> cased s"
  by (auto simp: islower_def cased_def list_ex_iff)

text \<open>Run on the whole dictionary: the keys left are the lower-cased cased keys.\<close>

lemma case_shift_all:
  assumes "distinct (map fst d)" "list_all is_str (map fst d)"
  shows "\<exists>d'. case_shift d d = Inr d' \<and> distinct (map fst d') \<and>
     fst ` set d' = {KStr (lower s) |s. KStr s \<in> fst ` set d \<and> cased s}"
proof -
  from case_shift_keys [OF assms(1) subset_refl assms(2) assms(1)]
  obtain d' where d': "case_shift d d = Inr d'" "distinct (map fst d')"
    "fst ` set d' =
       (fst ` set d - {KStr s |s. KStr s \<in> fst ` set d \<and> \<not> islower s})
       \<union> {KStr (lower s) |s. KStr s \<in> fst ` set d \<and> \<not> islower s \<and> cased s}"
    by blast
  have str: "\<exists>s. k = KStr s" if "k \<in> fst ` set d" for k
    using assms(2) that by (cases k) (force simp: list_all_iff is_str_def)+
  have "fst ` set d' = {KStr (lower s) |s. KStr s \<in> fst ` set d \<and> cased s}" (is "_ = ?R")
  proof (rule set_eqI)
    fix k
    show "k \<in> fst ` set d' \<longleftrightarrow> k \<in> ?R"
    proof
      assume "k \<in> fst ` set d'"
      then consider (old) "k \<in> fst ` set d" "k \<notin> {KStr s |s. KStr s \<in> fst ` set d \<and> \<not> islower s}"
        | (new) s where "k = KStr (lower s)" "KStr s \<in> fst ` set d" "cased s"
        unfolding d'(3) by blast
      then show "k \<in> ?R"
      proof cases
        case old
        from str [OF old(1)] obtain s where s: "k = KStr s" by blast
        with old have "islower s" by auto
        then have "lower s = s" "cased s" by (simp_all add: islower_lower_id islower_cased)
        with s old(1) show ?thesis by force
      next
        case new
        then show ?thesis by blast
      qed
    next
      assume "k \<in> ?R"
      then obtain s where s: "k = KStr (lower s)" "KStr s \<in> fst ` set d" "cased s" by blast
      show "k \<in> fst ` set d'"
      proof (cases "islower s")
        case True
        then have "lower s = s" by (rule islower_lower_id)
        with s True show ?thesis unfolding d'(3) by auto
      next
        case False
        with s show ?thesis unfolding d'(3) by blast
      qed
    qed
  qed
  with d'(1,2) show ?thesis by blast
qed

lemma init_load_fails:
  "pickle_load fs (dirize fname) = Inl e \<Longrightarrow> is_Exception e \<Longrightarrow>
   init dirize fs pn fname mode cs =
     Inr \<lparr>db = Dict [], plugin_name = pn, filename = dirize fname,
          case_sensitive = cs, addressing_mode = mode\<rparr>"
  by (simp add: init_def)

lemma init_case_sensitive:
  "pickle_load fs (dirize fname) = Inr obj \<Longrightarrow>
   init dirize fs pn fname mode True =
     Inr \<lparr>db = obj, plugin_name = pn, filename = dirize fname,
          case_sensitive = True, addressing_mode = mode\<rparr>"
  by (simp add: init_def)

lemma init_normalizes:
  assumes "pickle_load fs (dirize fname) = Inr obj" "str_keyed obj"
  shows "\<exists>d d'. obj = Dict d \<and>
     init dirize fs pn fname mode False =
       Inr \<lparr>db = Dict d', plugin_name = pn, filename = dirize fname,
            case_sensitive = False, addressing_mode = mode\<rparr> \<and>
     distinct (map fst d') \<and>
     fst ` set d' = {KStr (lower s) |s. KStr s \<in> fst ` set d \<and> cased s}"
proof -
  from assms(2) obtain d where d: "obj = Dict d" "distinct (map fst d)" "list_all is_str (map fst d)"
    by (cases obj) (auto simp: str_keyed_def)
  from case_shift_all [OF d(2,3)] obtain d' where d': "case_shift d d = Inr d'"
    "distinct (map fst d')" "fst ` set d' = {KStr (lower s) |s. KStr s \<in> fst ` set d \<and> cased s}"
    by blast
  have "init dirize fs pn fname mode False =
       Inr \<lparr>db = Dict d', plugin_name = pn, filename = dirize fname,
            case_sensitive = False, addressing_mode = mode\<rparr>"
    using assms(1) d(1) d'(1) by (simp add: init_def)
  with d(1) d'(2,3) show ?thesis by blast
qed

text \<open>
  Claim C1, as amended. The construction returns a store, and raises nothing, whenever
  reading or deserializing the file fails with an \<^verbatim>\<open>Exception\<close> (the file is absent,
  unreadable or no pickle), or the file deserializes and the store is case-sensitive or
  the object is a dictionary whose keys are strings; and whenever reading or
  deserializing the file fails with an \<^verbatim>\<open>Exception\<close>, the store starts with the
  empty dictionary.
\<close>

theorem init_never_raises_on_string_keys:
  assumes "\<forall>e. pickle_load fs (dirize fname) = Inl e \<longrightarrow> is_Exception e"
    and "\<forall>obj. pickle_load fs (dirize fname) = Inr obj \<longrightarrow> cs \<or> str_keyed obj"
  shows "\<exists>self. init dirize fs pn fname mode cs = Inr self \<and>
           (\<forall>e. pickle_load fs (dirize fname) = Inl e \<longrightarrow> db self = Dict [])"
proof (cases "pickle_load fs (dirize fname)")
  case (Inl e)
  with assms(1) have "is_Exception e" by simp
  with Inl show ?thesis by (simp add: init_load_fails)
next
  case (Inr obj)
  show ?thesis
  proof (cases cs)
    case True
    with Inr show ?thesis by (simp add: init_case_sensitive)
  next
    case False
    with assms(2) Inr have "str_keyed obj" by simp
    from init_normalizes [where dirize = dirize and fname = fname, OF Inr this, of pn mode]
      False Inr show ?thesis by auto
  qed
qed

theorem init_never_raises_on_string_keys_witness:
  "pickle_load (Map.empty(''accounts.db'' \<mapsto> Pickled (Dict [(KStr ''Bob'', Some (5::nat))])))
       (id ''accounts.db'') = Inr (Dict [(KStr ''Bob'', Some 5)]) \<and>
   str_keyed (Dict [(KStr ''Bob'', Some (5::nat))]) \<and>
   (\<exists>self. init id (Map.empty(''accounts.db'' \<mapsto> Pickled (Dict [(KStr ''Bob'', Some (5::nat))])))
        ''Plugin'' ''accounts.db'' ''accounts'' False = Inr self) \<and>
   pickle_load (Map.empty(''accounts.db'' \<mapsto> (Garbage :: nat pyfile))) (id ''accounts.db'')
     = Inl UnpicklingError \<and>
   is_Exception UnpicklingError \<and>
   (\<exists>self. init id (Map.empty(''accounts.db'' \<mapsto> (Garbage :: nat pyfile)))
        ''Plugin'' ''accounts.db'' ''accounts'' False = Inr self \<and> db self = Dict [])"
proof -
  let ?d = "Dict [(KStr ''Bob'', Some (5::nat))]"
  let ?fs = "Map.empty(''accounts.db'' \<mapsto> Pickled ?d)"
  let ?gs = "Map.empty(''accounts.db'' \<mapsto> (Garbage :: nat pyfile))"
  have l: "pickle_load ?fs (id ''accounts.db'') = Inr ?d"
    by (simp add: pickle_load_def)
  have k: "str_keyed ?d"
    by (simp add: str_keyed_def is_str_def)
  have g: "pickle_load ?gs (id ''accounts.db'') = Inl UnpicklingError"
    by (simp add: pickle_load_def)
  have x: "is_Exception UnpicklingError"
    by (simp add: is_Exception_def)
  have e1: "\<forall>e. pickle_load ?fs (id ''accounts.db'') = Inl e \<longrightarrow> is_Exception e"
    using l by simp
  have h1: "\<forall>obj. pickle_load ?fs (id ''accounts.db'') = Inr obj \<longrightarrow> False \<or> str_keyed obj"
    using l k by simp
  have e2: "\<forall>e. pickle_load ?gs (id ''accounts.db'') = Inl e \<longrightarrow> is_Exception e"
    using g x by simp
  have h2: "\<forall>obj. pickle_load ?gs (id ''accounts.db'') = Inr obj \<longrightarrow> False \<or> str_keyed obj"
    using g by simp
  from init_never_raises_on_string_keys [where dirize = id and fname = "''accounts.db''", OF e1 h1,
      of "''Plugin''" "''accounts''"]
  have a: "\<exists>self. init id ?fs ''Plugin'' ''accounts.db'' ''accounts'' False = Inr self"
    by (elim exE conjE) (rule exI)
  from init_never_raises_on_string_keys [where dirize = id and fname = "''accounts.db''", OF e2 h2,
      of "''Plugin''" "''accounts''"] g
  have b: "\<exists>self. init id ?gs ''Plugin'' ''accounts.db'' ''accounts'' False = Inr self \<and> db self = Dict []"
    by simp
  show ?thesis
    by (intro conjI l k a g x b)
qed

text \<open>
  Claim C1 as stated fails. A file that is a well-formed pickle of an object that is no
  dictionary, or of a dictionary with a key that is no string, makes the construction of
  a store that is not case-sensitive raise \<^verbatim>\<open>AttributeError\<close>, since the
  normalization runs in the \<^verbatim>\<open>else\<close> block, outside the handler. A pickle whose
  loading raises \<^verbatim>\<open>SystemExit\<close> makes any construction raise, since the handler
  catches \<^verbatim>\<open>Exception\<close> only.
\<close>

theorem init_raises_counterexample:
  "init id (Map.empty(''accounts.db'' \<mapsto> Pickled NonDict)) ''Plugin'' ''accounts.db'' ''accounts'' False
     = (Inl AttributeError :: error + nat accountsdb) \<and>
   init id (Map.empty(''accounts.db'' \<mapsto> Pickled (Dict [(KInt 1, Some 5)])))
       ''Plugin'' ''accounts.db'' ''accounts'' False
     = (Inl AttributeError :: error + nat accountsdb) \<and>
   init id (Map.empty(''accounts.db'' \<mapsto> Raising SystemExit)) ''Plugin'' ''accounts.db'' ''accounts'' True
     = (Inl SystemExit :: error + nat accountsdb)"
  by (simp add: init_def pickle_load_def is_Exception_def)

lemma distinct_singleton:
  assumes "distinct xs" "set xs = {a}"
  shows "xs = [a]"
proof (cases xs)
  case Nil
  with assms(2) show ?thesis by simp
next
  case (Cons x ys)
  with assms have "x = a" "set ys \<subseteq> {a}" "a \<notin> set ys" by auto
  then have "ys = []" by (cases ys) auto
  with Cons \<open>x = a\<close> show ?thesis by simp
qed

text \<open>
  Claim C3. A store that is not case-sensitive, constructed from a file that holds a
  dictionary whose keys are strings, has no two keys that differ only by case; and when
  the keys of the file are \<^verbatim>\<open>Bob\<close> and \<^verbatim>\<open>bob\<close>, the store has the one key \<^verbatim>\<open>bob\<close>.
\<close>

theorem load_normalization_no_case_variants:
  assumes "pickle_load fs (dirize fname) = Inr (Dict d)" "str_keyed (Dict d)"
  shows "\<exists>self d'. init dirize fs pn fname mode False = Inr self \<and> db self = Dict d' \<and>
           (\<forall>a \<in> set (map fst d'). \<forall>b \<in> set (map fst d'). \<not> differ_only_by_case a b) \<and>
           (set (map fst d) = {KStr ''Bob'', KStr ''bob''} \<longrightarrow> map fst d' = [KStr ''bob''])"
proof -
  from init_normalizes [where dirize = dirize and fname = fname, OF assms, of pn mode]
  obtain d' where i: "init dirize fs pn fname mode False =
       Inr \<lparr>db = Dict d', plugin_name = pn, filename = dirize fname,
            case_sensitive = False, addressing_mode = mode\<rparr>"
    and dis: "distinct (map fst d')"
    and keys: "fst ` set d' = {KStr (lower s) |s. KStr s \<in> fst ` set d \<and> cased s}"
    by blast
  have low: "\<exists>s. a = KStr s \<and> lower s = s" if "a \<in> fst ` set d'" for a
    using that unfolding keys by (auto simp: lower_idem)
  have no: "\<not> differ_only_by_case a b" if "a \<in> fst ` set d'" "b \<in> fst ` set d'" for a b
    using low [OF that(1)] low [OF that(2)] by (auto simp: differ_only_by_case_def)
  have bob: "map fst d' = [KStr ''bob'']" if "set (map fst d) = {KStr ''Bob'', KStr ''bob''}"
  proof -
    have e: "lower ''Bob'' = ''bob''" "lower ''bob'' = ''bob''" "cased ''Bob''" "cased ''bob''"
      by code_simp+
    have k: "fst ` set d = {KStr ''Bob'', KStr ''bob''}"
      using that by simp
    have mem: "KStr s \<in> fst ` set d \<longleftrightarrow> s = ''Bob'' \<or> s = ''bob''" for s
      unfolding k by simp
    have "fst ` set d' = {KStr ''bob''}"
      unfolding keys mem
    proof (rule set_eqI, rule iffI)
      fix a
      assume "a \<in> {KStr (lower s) |s. (s = ''Bob'' \<or> s = ''bob'') \<and> cased s}"
      then obtain s where "a = KStr (lower s)" "s = ''Bob'' \<or> s = ''bob''"
        by blast
      then have "a = KStr ''bob''" using e(1,2) by metis
      then show "a \<in> {KStr ''bob''}" by (simp only: singleton_iff)
    next
      fix a
      assume "a \<in> {KStr ''bob''}"
      then have "a = KStr ''bob''" by (rule singletonD)
      then have "a = KStr (lower ''bob'')" using e(2) by metis
      then show "a \<in> {KStr (lower s) |s. (s = ''Bob'' \<or> s = ''bob'') \<and> cased s}"
        using e(4) by blast
    qed
    then show ?thesis using dis distinct_singleton [of "map fst d'"] by simp
  qed
  show ?thesis using i no bob by auto
qed

theorem load_normalization_no_case_variants_witness:
  "str_keyed (Dict [(KStr ''Bob'', Some (5::nat)), (KStr ''bob'', Some 6)]) \<and>
   (\<exists>self d'.
      init id (Map.empty(''accounts.db'' \<mapsto>
                 Pickled (Dict [(KStr ''Bob'', Some (5::nat)), (KStr ''bob'', Some 6)])))
        ''Plugin'' ''accounts.db'' ''accounts'' False = Inr self \<and>
      db self = Dict d' \<and> map fst d' = [KStr ''bob''])"
proof -
  let ?d = "[(KStr ''Bob'', Some (5::nat)), (KStr ''bob'', Some 6)]"
  let ?fs = "Map.empty(''accounts.db'' \<mapsto> Pickled (Dict ?d))"
  have l: "pickle_load ?fs (id ''accounts.db'') = Inr (Dict ?d)"
    by (simp add: pickle_load_def)
  have k: "str_keyed (Dict ?d)"
    by (simp add: str_keyed_def is_str_def)
  have s: "set (map fst ?d) = {KStr ''Bob'', KStr ''bob''}"
    by simp
  note t = load_normalization_no_case_variants [where dirize = id and fname = "''accounts.db''",
      OF l k, of "''Plugin''" "''accounts''"]
  from t have "\<exists>self d'.
      init id ?fs ''Plugin'' ''accounts.db'' ''accounts'' False = Inr self \<and>
      db self = Dict d' \<and> map fst d' = [KStr ''bob'']"
  proof (elim exE conjE)
    fix self d'
    assume i: "init id ?fs ''Plugin'' ''accounts.db'' ''accounts'' False = Inr self"
      and b: "db self = Dict d'"
      and m: "set (map fst ?d) = {KStr ''Bob'', KStr ''bob''} \<longrightarrow> map fst d' = [KStr ''bob'']"
    from m s have r: "map fst d' = [KStr ''bob'']" by (rule mp)
    show ?thesis
      by (rule exI [of _ self], rule exI [of _ d']) (intro conjI i b r)
  qed
  with k show ?thesis by (rule conjI)
qed

text \<open>
  Claim C4 fails on the code. The key \<^verbatim>\<open>123\<close> has no cased character, so
  \<^verbatim>\<open>islower\<close> is False for it; the loop stores the value under \<^verbatim>\<open>"123".lower()\<close>,
  which is the same key, and then deletes that key: the entry is gone after the load.
\<close>

theorem caseless_key_lost:
  "init id (Map.empty(''accounts.db'' \<mapsto> Pickled (Dict [(KStr ''123'', Some (5::nat))])))
       ''Plugin'' ''accounts.db'' ''accounts'' False
     = Inr \<lparr>db = Dict [], plugin_name = ''Plugin'', filename = ''accounts.db'',
            case_sensitive = False, addressing_mode = ''accounts''\<rparr>"
proof -
  have "\<not> islower ''123''" "lower ''123'' = ''123''" by code_simp+
  then show ?thesis
    by (simp add: init_def pickle_load_def dict_setitem_def dict_delitem_def)
qed

end
